theory Spec2Isabelle
  imports Main "HOL-Library.Word"
begin

section \<open>Form validation script: a shallow embedding of form-validation.js\<close>

text \<open>
  The script has three functions, \<open>checkMissing\<close>, \<open>validateEmail\<close> and
  \<open>validateForm\<close>. They read and write the page through the DOM. The page is the
  input of every function, so it is an explicit state here: a function takes the
  document and returns its completion (a value, or the exception thrown) together with
  the document it leaves behind. Writes made before an exception stay in the document,
  as in JavaScript. The document is a tree: assigning \<open>textContent\<close> replaces the
  children of an element, whatever they are.
\<close>

subsection \<open>JavaScript strings\<close>

text \<open>
  A JavaScript string is a sequence of UTF-16 code units; \<open>length\<close> counts code units.
  Identifiers and class names are only ever compared with ASCII literals and are
  kept as HOL strings.
\<close>

type_synonym jsstring = "16 word list"

definition lit :: "string \<Rightarrow> jsstring" where
  "lit s = map (\<lambda>c. of_nat (of_char c)) s"

text \<open>
  \<open>String.prototype.trim\<close> removes, from both ends, the code points of the
  ECMAScript productions WhiteSpace and LineTerminator: TAB, LF, VT, FF, CR, SPACE,
  NBSP, U+1680, U+2000 to U+200A, U+2028, U+2029, U+202F, U+205F, U+3000 and U+FEFF.
  All of them are single code units.
\<close>

definition isWhiteSpace :: "16 word \<Rightarrow> bool" where
  "isWhiteSpace c \<longleftrightarrow>
     c = 0x0009 \<or> c = 0x000A \<or> c = 0x000B \<or> c = 0x000C \<or> c = 0x000D \<or> c = 0x0020 \<or>
     c = 0x00A0 \<or> c = 0x1680 \<or> (0x2000 \<le> c \<and> c \<le> 0x200A) \<or> c = 0x2028 \<or>
     c = 0x2029 \<or> c = 0x202F \<or> c = 0x205F \<or> c = 0x3000 \<or> c = 0xFEFF"

definition trim :: "jsstring \<Rightarrow> jsstring" where
  "trim s = rev (dropWhile isWhiteSpace (rev (dropWhile isWhiteSpace s)))"

text \<open>
  A template literal converts a number with \<open>Number::toString\<close>: for an integer of
  magnitude below \<open>10^21\<close> that is its decimal digits, with a minus sign when negative.
\<close>

fun digitsOf :: "nat \<Rightarrow> jsstring" where
  "digitsOf n = (if n < 10 then [0x30 + of_nat n]
                 else digitsOf (n div 10) @ [0x30 + of_nat (n mod 10)])"

declare digitsOf.simps [simp del]

definition numberToString :: "int \<Rightarrow> jsstring" where
  "numberToString k = (if k < 0 then 0x2D # digitsOf (nat (- k)) else digitsOf (nat k))"

subsection \<open>The page\<close>

text \<open>
  An element carries what the script touches: its \<open>id\<close>, its class tokens
  (\<open>classList\<close>, an ordered set), its \<open>style.color\<close>, and how its \<open>value\<close>
  property is read:
  \<^item> \<open>NoValue\<close>: the element is no form control; \<open>value\<close> is \<open>undefined\<close> (or a
    number), and calling \<open>.trim()\<close> on it throws a TypeError;
  \<^item> \<open>OwnValue v\<close>: a control that keeps its value itself, such as an \<open>input\<close>, or
    a \<open>textarea\<close> once it has been edited;
  \<^item> \<open>ContentValue g\<close>: a control whose value is read from what lies below it in the
    tree, by \<open>g\<close>. The getter sees the shape of the descendants: the depth of each and,
    for a text node, its data. An \<open>output\<close>, and a \<open>textarea\<close> that has not been
    edited (its children are its text; the normalisation of newlines is left aside), read
    their text content, \<open>textValue\<close>; an \<open>option\<close> without a value attribute and a
    \<open>select\<close> over such options read theirs in their own way.
\<close>

datatype error = TypeError

type_synonym shape = "(nat \<times> jsstring option) list"

datatype valueKind = NoValue | OwnValue jsstring | ContentValue "shape \<Rightarrow> jsstring"

definition textValue :: "shape \<Rightarrow> jsstring" where
  "textValue sh = concat (map (\<lambda>p. case snd p of None \<Rightarrow> [] | Some t \<Rightarrow> t) sh)"

record element =
  ident :: string
  classList :: "string list"
  val :: valueKind
  styleColor :: jsstring

text \<open>
  The document is the list of its nodes, elements and text nodes, in tree order, each
  with its depth in the tree. The descendants of a node are the nodes that follow it for
  as long as they are deeper than it. Comment nodes play no part in what the script reads
  and are left out. A handle is the position of a node in the list.
  \<open>alerts\<close> records the messages shown by \<open>alert\<close>, oldest first. \<open>canceled\<close> is
  the canceled flag of the event being dispatched, the flag that \<open>preventDefault\<close>
  would set.
\<close>

datatype item = TextNode jsstring | ElementNode element

record node =
  depth :: nat
  item :: item

record document =
  nodes :: "node list"
  alerts :: "jsstring list"
  canceled :: bool

definition elementWith :: "(element \<Rightarrow> bool) \<Rightarrow> node \<Rightarrow> bool" where
  "elementWith P n = (case item n of TextNode t \<Rightarrow> False | ElementNode e \<Rightarrow> P e)"

definition textOf :: "node \<Rightarrow> jsstring" where
  "textOf n = (case item n of TextNode t \<Rightarrow> t | ElementNode e \<Rightarrow> [])"

definition shapeOf :: "node \<Rightarrow> nat \<times> jsstring option" where
  "shapeOf n = (depth n, case item n of TextNode t \<Rightarrow> Some t | ElementNode e \<Rightarrow> None)"

definition deeper :: "node \<Rightarrow> node \<Rightarrow> bool" where
  "deeper n m \<longleftrightarrow> depth n < depth m"

definition descendants :: "node list \<Rightarrow> nat \<Rightarrow> node list" where
  "descendants ns h = takeWhile (deeper (ns ! h)) (drop (Suc h) ns)"

definition textContent :: "node list \<Rightarrow> nat \<Rightarrow> jsstring" where
  \<comment> \<open>reading \<open>textContent\<close>: the text of all text nodes below the element, in tree order\<close>
  "textContent ns h = concat (map textOf (descendants ns h))"

definition valueOf :: "node list \<Rightarrow> nat \<Rightarrow> jsstring option" where
  \<comment> \<open>reading \<open>value\<close>: \<open>None\<close> when it is not a string\<close>
  "valueOf ns h =
     (case item (ns ! h) of
        TextNode t \<Rightarrow> None
      | ElementNode e \<Rightarrow>
          (case val e of
             NoValue \<Rightarrow> None
           | OwnValue v \<Rightarrow> Some v
           | ContentValue g \<Rightarrow> Some (g (map shapeOf (descendants ns h)))))"

primrec firstWithId :: "string \<Rightarrow> node list \<Rightarrow> nat option" where
  "firstWithId i [] = None"
| "firstWithId i (n # ns) =
     (if elementWith (\<lambda>e. ident e = i) n then Some 0 else map_option Suc (firstWithId i ns))"

definition getElementById :: "string \<Rightarrow> document \<Rightarrow> nat option" where
  "getElementById i d = firstWithId i (nodes d)"

definition querySelectorAll :: "string \<Rightarrow> document \<Rightarrow> nat list" where
  \<comment> \<open>the class selector \<open>.c\<close>: handles of the elements with class \<open>c\<close>, in tree order;
      class names are compared as they are written, as in a standards-mode document\<close>
  "querySelectorAll c d =
     filter (\<lambda>j. elementWith (\<lambda>e. c \<in> set (classList e)) (nodes d ! j)) [0..<length (nodes d)]"

definition onElement :: "(element \<Rightarrow> element) \<Rightarrow> node \<Rightarrow> node" where
  "onElement f n = (case item n of TextNode t \<Rightarrow> n | ElementNode e \<Rightarrow> n\<lparr>item := ElementNode (f e)\<rparr>)"

definition updateElement :: "nat \<Rightarrow> (element \<Rightarrow> element) \<Rightarrow> document \<Rightarrow> document" where
  "updateElement h f d = d\<lparr>nodes := (nodes d)[h := onElement f (nodes d ! h)]\<rparr>"

text \<open>
  Assigning \<open>textContent\<close> removes every descendant of the element, elements included, and
  puts one text node in their place, or nothing when the string is empty.
\<close>

definition textNodes :: "nat \<Rightarrow> jsstring \<Rightarrow> node list" where
  "textNodes k t = (if t = [] then [] else [\<lparr>depth = k, item = TextNode t\<rparr>])"

definition setTextContent :: "nat \<Rightarrow> jsstring \<Rightarrow> document \<Rightarrow> document" where
  "setTextContent h t d =
     (if h < length (nodes d) then
        d\<lparr>nodes := take (Suc h) (nodes d) @ textNodes (Suc (depth (nodes d ! h))) t @
                     dropWhile (deeper (nodes d ! h)) (drop (Suc h) (nodes d))\<rparr>
      else d)"

definition setStyleColor :: "nat \<Rightarrow> jsstring \<Rightarrow> document \<Rightarrow> document" where
  "setStyleColor h c = updateElement h (\<lambda>e. e\<lparr>styleColor := c\<rparr>)"

definition classListAdd :: "nat \<Rightarrow> string \<Rightarrow> document \<Rightarrow> document" where
  "classListAdd h t =
     updateElement h (\<lambda>e. if t \<in> set (classList e) then e else e\<lparr>classList := classList e @ [t]\<rparr>)"

definition classListRemove :: "nat \<Rightarrow> string \<Rightarrow> document \<Rightarrow> document" where
  "classListRemove h t = updateElement h (\<lambda>e. e\<lparr>classList := removeAll t (classList e)\<rparr>)"

definition alert :: "jsstring \<Rightarrow> document \<Rightarrow> document" where
  "alert m d = d\<lparr>alerts := alerts d @ [m]\<rparr>"

subsection \<open>checkMissing\<close>

text \<open>
  The \<open>forEach\<close> loop of \<open>checkMissing\<close> over the handles found by
  \<open>querySelectorAll('.required')\<close>, with the counter \<open>missingCount\<close> as accumulator.
  The empty string is the only falsy string, so \<open>!field.value.trim()\<close> holds exactly
  when the trimmed value is empty.
\<close>

fun forEachRequired :: "node list \<Rightarrow> nat list \<Rightarrow> int \<Rightarrow> error + int" where
  "forEachRequired ns [] missingCount = Inr missingCount"
| "forEachRequired ns (field # others) missingCount =
     (case valueOf ns field of
        None \<Rightarrow> Inl TypeError
      | Some v \<Rightarrow>
          forEachRequired ns others (if trim v = [] then missingCount + 1 else missingCount))"

definition checkMissing :: "document \<Rightarrow> (error + int) \<times> document" where
  "checkMissing d =
     (let requiredFields = querySelectorAll ''required'' d in
      case forEachRequired (nodes d) requiredFields 0 of
        Inl e \<Rightarrow> (Inl e, d)
      | Inr missingCount \<Rightarrow>
          (case getElementById ''missing-count'' d of
             None \<Rightarrow> (Inr missingCount, d)
           | Some messageSpan \<Rightarrow>
               if missingCount > 0 then
                 (Inr missingCount,
                  setStyleColor messageSpan (lit ''red'')
                    (setTextContent messageSpan
                       (numberToString missingCount @ lit '' required field(s) still incomplete.'') d))
               else
                 (Inr missingCount,
                  setStyleColor messageSpan (lit ''green'')
                    (setTextContent messageSpan (lit ''All required fields completed.'') d))))"

subsection \<open>validateEmail\<close>

definition validateEmail :: "document \<Rightarrow> (error + bool) \<times> document" where
  "validateEmail d =
     (case getElementById ''email'' d of
        None \<Rightarrow> (Inr True, d)
      | Some emailInput \<Rightarrow>
          (case valueOf (nodes d) emailInput of
             None \<Rightarrow> (Inl TypeError, d)
           | Some v \<Rightarrow>
               (let isValid = (length (trim v) \<ge> 8) in
                if \<not> isValid then (Inr isValid, classListAdd emailInput ''invalid'' d)
                else (Inr isValid, classListRemove emailInput ''invalid'' d))))"

subsection \<open>validateForm\<close>

text \<open>
  The two messages start with the signs U+26A0 U+FE0F and U+2705. \<open>validateForm\<close> is
  registered as the click listener of the submit button as it is; it takes no
  parameter, so the event it is called with is out of its reach.
\<close>

definition warningMessage :: jsstring where
  "warningMessage = [0x26A0, 0xFE0F] @
     lit '' Please complete all required fields and ensure the email has at least 8 characters.''"

definition successMessage :: jsstring where
  "successMessage = [0x2705] @ lit '' Form submitted successfully!''"

definition validateForm :: "document \<Rightarrow> (error + unit) \<times> document" where
  "validateForm d =
     (case checkMissing d of
        (Inl e, d1) \<Rightarrow> (Inl e, d1)
      | (Inr missing, d1) \<Rightarrow>
          (case validateEmail d1 of
             (Inl e, d2) \<Rightarrow> (Inl e, d2)
           | (Inr emailOK, d2) \<Rightarrow>
               if missing > 0 \<or> \<not> emailOK then (Inr (), alert warningMessage d2)
               else (Inr (), alert successMessage d2)))"

subsection \<open>Derived forms of the reads and writes\<close>

text \<open>
  The two writes of the rendering step of \<open>checkMissing\<close> put the text and colour
  below on the status display; the two branches of \<open>validateEmail\<close> are one update of the
  email field by \<open>markInvalid\<close>. Both are proved equal to the code
  (\<open>checkMissing_eq\<close>, \<open>validateEmail_eq\<close>).
\<close>

definition statusText :: "int \<Rightarrow> jsstring" where
  "statusText n = (if n > 0 then numberToString n @ lit '' required field(s) still incomplete.''
                   else lit ''All required fields completed.'')"

definition statusColor :: "int \<Rightarrow> jsstring" where
  "statusColor n = (if n > 0 then lit ''red'' else lit ''green'')"

definition renderStatus :: "nat \<Rightarrow> int \<Rightarrow> document \<Rightarrow> document" where
  "renderStatus h n d = setStyleColor h (statusColor n) (setTextContent h (statusText n) d)"

definition markInvalid :: "bool \<Rightarrow> element \<Rightarrow> element" where
  "markInvalid isValid e =
     (if isValid then e\<lparr>classList := removeAll ''invalid'' (classList e)\<rparr>
      else if ''invalid'' \<in> set (classList e) then e
      else e\<lparr>classList := classList e @ [''invalid'']\<rparr>)"

text \<open>
  The value of a node read from the node and the nodes that follow it (\<open>valueOf_valueIn\<close>),
  and with it the values of the elements that satisfy \<open>P\<close>, collected along the list
  (\<open>valuesOf_valuesAlong\<close>).
\<close>

definition valueIn :: "node \<Rightarrow> node list \<Rightarrow> jsstring option" where
  "valueIn n rest =
     (case item n of
        TextNode t \<Rightarrow> None
      | ElementNode e \<Rightarrow>
          (case val e of
             NoValue \<Rightarrow> None
           | OwnValue v \<Rightarrow> Some v
           | ContentValue g \<Rightarrow> Some (g (map shapeOf (takeWhile (deeper n) rest)))))"

primrec valuesAlong :: "(element \<Rightarrow> bool) \<Rightarrow> node list \<Rightarrow> jsstring option list" where
  "valuesAlong P [] = []"
| "valuesAlong P (n # rest) =
     (if elementWith P n then valueIn n rest # valuesAlong P rest else valuesAlong P rest)"

subsection \<open>The vocabulary of the specification\<close>

text \<open>
  The specification speaks of required fields, which are inputs with a text value, and
  of one email input. A field is an element with a string \<open>value\<close>.
  \<open>requiredHaveText\<close> and \<open>everyEmailHasText\<close> say that the page is built so: every
  element of class \<open>required\<close>, and every element with id \<open>email\<close>, is a field.
\<close>

definition isField :: "element \<Rightarrow> bool" where
  "isField e = (case val e of NoValue \<Rightarrow> False | OwnValue v \<Rightarrow> True | ContentValue g \<Rightarrow> True)"

definition readsContent :: "element \<Rightarrow> bool" where
  "readsContent e = (case val e of NoValue \<Rightarrow> False | OwnValue v \<Rightarrow> False | ContentValue g \<Rightarrow> True)"

definition requiredHaveText :: "document \<Rightarrow> bool" where
  "requiredHaveText d =
     list_all (\<lambda>j. valueOf (nodes d) j \<noteq> None) (querySelectorAll ''required'' d)"

definition everyEmailHasText :: "document \<Rightarrow> bool" where
  "everyEmailHasText d =
     list_all (\<lambda>n. elementWith (\<lambda>e. ident e = ''email'') n \<longrightarrow> elementWith isField n) (nodes d)"

text \<open>A field is missing when its trimmed value is the empty string.\<close>

definition trimmedEmpty :: "jsstring option \<Rightarrow> bool" where
  "trimmedEmpty x = (case x of None \<Rightarrow> False | Some v \<Rightarrow> trim v = [])"

text \<open>A field is blank when its value has nothing but whitespace in it.\<close>

definition onlyWhiteSpace :: "jsstring option \<Rightarrow> bool" where
  "onlyWhiteSpace x = (case x of None \<Rightarrow> False | Some v \<Rightarrow> list_all isWhiteSpace v)"

definition missingFields :: "document \<Rightarrow> nat list" where
  "missingFields d = filter (\<lambda>j. trimmedEmpty (valueOf (nodes d) j)) (querySelectorAll ''required'' d)"

definition blankFields :: "document \<Rightarrow> nat list" where
  "blankFields d = filter (\<lambda>j. onlyWhiteSpace (valueOf (nodes d) j)) (querySelectorAll ''required'' d)"

text \<open>The email rule: at least 8 code units after trimming; valid when there is no email field.\<close>

definition emailValid :: "document \<Rightarrow> bool" where
  "emailValid d =
     (case getElementById ''email'' d of
        None \<Rightarrow> True
      | Some h \<Rightarrow> (case valueOf (nodes d) h of None \<Rightarrow> False | Some v \<Rightarrow> 8 \<le> length (trim v)))"

text \<open>
  Calling an operation again and again on the document the previous call left:
  \<open>callRepeatedly f n d\<close> is the completion and the document of call number \<open>n + 1\<close>.
\<close>

primrec callRepeatedly :: "(document \<Rightarrow> 'a \<times> document) \<Rightarrow> nat \<Rightarrow> document \<Rightarrow> 'a \<times> document" where
  "callRepeatedly f 0 d = f d"
| "callRepeatedly f (Suc n) d = callRepeatedly f n (snd (f d))"

text \<open>
  The values, and the elements, of a page that satisfy \<open>P\<close>, in tree order.
\<close>

definition valuesOf :: "(element \<Rightarrow> bool) \<Rightarrow> node list \<Rightarrow> jsstring option list" where
  "valuesOf P ns = map (valueOf ns) (filter (\<lambda>j. elementWith P (ns ! j)) [0..<length ns])"




text \<open>
  The status display is apart from the elements that satisfy \<open>P\<close> when none of them lies
  inside it, and none of them whose value is read from its content is the status display
  itself or has it inside. In the nodes up to the status display, a node has the status display
  inside, or is it, when all the nodes after it are deeper than it.
\<close>

primrec noContentValueAround :: "(element \<Rightarrow> bool) \<Rightarrow> node list \<Rightarrow> bool" where
  "noContentValueAround P [] = True"
| "noContentValueAround P (n # rest) =
     ((elementWith P n \<and> elementWith readsContent n \<longrightarrow> \<not> list_all (deeper n) rest) \<and>
      noContentValueAround P rest)"

definition statusDisplayApart :: "(element \<Rightarrow> bool) \<Rightarrow> document \<Rightarrow> bool" where
  "statusDisplayApart P d =
     (case getElementById ''missing-count'' d of
        None \<Rightarrow> True
      | Some h \<Rightarrow>
          list_all (\<lambda>n. \<not> elementWith P n) (descendants (nodes d) h) \<and>
          noContentValueAround P (take (Suc h) (nodes d)))"

definition isRequired :: "element \<Rightarrow> bool" where
  "isRequired e \<longleftrightarrow> ''required'' \<in> set (classList e)"

definition isEmail :: "element \<Rightarrow> bool" where
  "isEmail e \<longleftrightarrow> ident e = ''email''"


subsection \<open>Example pages\<close>

text \<open>
  A contact form: a \<open>form\<close> element with a required name input, a required email input,
  the status display (an empty \<open>span\<close>), a required message \<open>textarea\<close> that has not been
  edited, with its text, and the submit button with its label. The same form without the
  email input, and without the status display.
\<close>

definition elementNode :: "nat \<Rightarrow> string \<Rightarrow> string list \<Rightarrow> valueKind \<Rightarrow> node" where
  "elementNode k i cs v =
     \<lparr>depth = k, item = ElementNode \<lparr>ident = i, classList = cs, val = v, styleColor = []\<rparr>\<rparr>"

definition contactForm :: "jsstring \<Rightarrow> jsstring \<Rightarrow> jsstring \<Rightarrow> document" where
  "contactForm name message email =
     \<lparr>nodes = [elementNode 0 ''contact'' [] NoValue,
               elementNode 1 ''name'' [''required''] (OwnValue name),
               elementNode 1 ''email'' [''required''] (OwnValue email),
               elementNode 1 ''missing-count'' [] NoValue,
               elementNode 1 ''message'' [''required''] (ContentValue textValue)] @ textNodes 2 message @
              [elementNode 1 ''submitBtn'' [] (OwnValue []),
               \<lparr>depth = 2, item = TextNode (lit ''Submit Form'')\<rparr>],
      alerts = [], canceled = False\<rparr>"

definition formWithoutEmail :: "jsstring \<Rightarrow> jsstring \<Rightarrow> document" where
  "formWithoutEmail name message =
     \<lparr>nodes = [elementNode 0 ''contact'' [] NoValue,
               elementNode 1 ''name'' [''required''] (OwnValue name),
               elementNode 1 ''missing-count'' [] NoValue,
               elementNode 1 ''message'' [''required''] (ContentValue textValue)] @ textNodes 2 message @
              [elementNode 1 ''submitBtn'' [] (OwnValue []),
               \<lparr>depth = 2, item = TextNode (lit ''Submit Form'')\<rparr>],
      alerts = [], canceled = False\<rparr>"

definition formWithoutStatus :: "jsstring \<Rightarrow> jsstring \<Rightarrow> jsstring \<Rightarrow> document" where
  "formWithoutStatus name message email =
     \<lparr>nodes = [elementNode 0 ''contact'' [] NoValue,
               elementNode 1 ''name'' [''required''] (OwnValue name),
               elementNode 1 ''email'' [''required''] (OwnValue email),
               elementNode 1 ''message'' [''required''] (ContentValue textValue)] @ textNodes 2 message @
              [elementNode 1 ''submitBtn'' [] (OwnValue []),
               \<lparr>depth = 2, item = TextNode (lit ''Submit Form'')\<rparr>],
      alerts = [], canceled = False\<rparr>"

text \<open>
  Two pages on which the status display is not apart from the fields: one where a required
  input and the email input lie inside the status display, and one where the status display
  is itself a required \<open>textarea\<close> that has not been edited.
\<close>

definition nestedPage :: "jsstring \<Rightarrow> jsstring \<Rightarrow> document" where
  "nestedPage name email =
     \<lparr>nodes = [elementNode 0 ''missing-count'' [] NoValue,
               elementNode 1 ''name'' [''required''] (OwnValue name),
               elementNode 1 ''email'' [] (OwnValue email)],
      alerts = [], canceled = False\<rparr>"

definition textareaPage :: document where
  "textareaPage =
     \<lparr>nodes = [elementNode 0 ''missing-count'' [''required''] (ContentValue textValue)],
      alerts = [], canceled = False\<rparr>"

section \<open>Properties of the library model\<close>

subsection \<open>Trimming\<close>

lemma trim_Nil_iff: "trim s = [] \<longleftrightarrow> list_all isWhiteSpace s"
proof
  assume "trim s = []"
  then have all: "\<forall>c\<in>set (dropWhile isWhiteSpace s). isWhiteSpace c"
    by (simp add: trim_def)
  have "dropWhile isWhiteSpace s = []"
  proof (rule ccontr)
    assume ne: "dropWhile isWhiteSpace s \<noteq> []"
    then have "\<not> isWhiteSpace (hd (dropWhile isWhiteSpace s))"
      by (rule hd_dropWhile)
    moreover from ne all have "isWhiteSpace (hd (dropWhile isWhiteSpace s))"
      by (cases "dropWhile isWhiteSpace s") auto
    ultimately show False by contradiction
  qed
  then show "list_all isWhiteSpace s"
    by (simp add: list_all_iff)
next
  assume "list_all isWhiteSpace s"
  then have "dropWhile isWhiteSpace s = []"
    by (simp add: list_all_iff)
  then show "trim s = []"
    by (simp only: trim_def dropWhile.simps rev.simps)
qed

lemma trim_decomp:
  "\<exists>pre suf. s = pre @ trim s @ suf \<and> list_all isWhiteSpace pre \<and> list_all isWhiteSpace suf"
proof -
  let ?a = "takeWhile isWhiteSpace s"
  let ?r = "dropWhile isWhiteSpace s"
  let ?b = "rev (takeWhile isWhiteSpace (rev ?r))"
  have "rev ?r = takeWhile isWhiteSpace (rev ?r) @ dropWhile isWhiteSpace (rev ?r)"
    by simp
  then have "?r = trim s @ ?b"
    unfolding trim_def by (metis rev_append rev_rev_ident)
  then have "s = ?a @ trim s @ ?b"
    by (metis takeWhile_dropWhile_id)
  moreover have "list_all isWhiteSpace ?a"
    unfolding list_all_iff by (blast dest: set_takeWhileD)
  moreover have "list_all isWhiteSpace ?b"
    unfolding list_all_iff set_rev by (blast dest: set_takeWhileD)
  ultimately show ?thesis by blast
qed

lemma trim_ends:
  assumes "trim s \<noteq> []"
  shows "\<not> isWhiteSpace (hd (trim s)) \<and> \<not> isWhiteSpace (last (trim s))"
proof -
  let ?r = "dropWhile isWhiteSpace s"
  let ?t = "dropWhile isWhiteSpace (rev ?r)"
  from assms have t: "?t \<noteq> []"
    unfolding trim_def by (simp del: dropWhile_eq_Nil_conv)
  have "rev ?r \<noteq> []"
    using t by (metis dropWhile.simps(1))
  then have r: "?r \<noteq> []"
    by simp
  have "last (trim s) = hd ?t"
    using t by (simp add: trim_def last_rev)
  then have last: "\<not> isWhiteSpace (last (trim s))"
    using hd_dropWhile [OF t] by simp
  have "rev ?r = takeWhile isWhiteSpace (rev ?r) @ ?t"
    by simp
  then have "last (rev ?r) = last ?t"
    using t by (metis last_appendR)
  then have "hd (trim s) = hd ?r"
    using t r by (simp add: trim_def hd_rev last_rev)
  then have "\<not> isWhiteSpace (hd (trim s))"
    using hd_dropWhile [OF r] by simp
  with last show ?thesis by simp
qed

subsection \<open>Decimal digits\<close>

text \<open>\<open>digitsOf\<close> writes ASCII digits only, and reading them back gives the number.\<close>

lemma unat_digit:
  assumes "k < 10"
  shows "unat (0x30 + of_nat k :: 16 word) = 48 + k"
proof -
  have "unat (0x30 + of_nat k :: 16 word) = (48 + k mod 65536) mod 65536"
    by (simp add: unat_word_ariths unat_of_nat)
  with assms show ?thesis by simp
qed

lemma digitsOf_value: "foldl (\<lambda>a c. 10 * a + (unat c - 48)) 0 (digitsOf n) = n"
proof (induction n rule: digitsOf.induct)
  case (1 n)
  show ?case
  proof (cases "n < 10")
    case True
    then show ?thesis
      by (subst digitsOf.simps) (simp add: unat_digit)
  next
    case False
    have "n mod 10 < 10" by simp
    then have "unat (0x30 + of_nat (n mod 10) :: 16 word) = 48 + n mod 10"
      by (rule unat_digit)
    with False "1.IH" show ?thesis
      by (subst digitsOf.simps) simp
  qed
qed

lemma digitsOf_digits: "list_all (\<lambda>c. 0x30 \<le> unat c \<and> unat c \<le> 0x39) (digitsOf n)"
proof (induction n rule: digitsOf.induct)
  case (1 n)
  show ?case
  proof (cases "n < 10")
    case True
    then show ?thesis
      by (subst digitsOf.simps) (simp add: unat_digit)
  next
    case False
    have "n mod 10 < 10" by simp
    then have "unat (0x30 + of_nat (n mod 10) :: 16 word) = 48 + n mod 10"
      by (rule unat_digit)
    with False "1.IH" show ?thesis
      by (subst digitsOf.simps) simp
  qed
qed

subsection \<open>Lookup by id\<close>

lemma firstWithId_Some_iff:
  "firstWithId i ns = Some h \<longleftrightarrow>
     h < length ns \<and> elementWith (\<lambda>e. ident e = i) (ns ! h) \<and>
     (\<forall>j<h. \<not> elementWith (\<lambda>e. ident e = i) (ns ! j))"
proof (induction ns arbitrary: h)
  case Nil
  then show ?case by simp
next
  case (Cons n ns)
  show ?case
  proof (cases "elementWith (\<lambda>e. ident e = i) n")
    case True
    then show ?thesis by (cases h) auto
  next
    case False
    show ?thesis
    proof (cases h)
      case 0
      with False show ?thesis by simp
    next
      case (Suc k)
      have "(\<forall>j<Suc k. \<not> elementWith (\<lambda>e. ident e = i) ((n # ns) ! j)) \<longleftrightarrow>
            (\<forall>j<k. \<not> elementWith (\<lambda>e. ident e = i) (ns ! j))"
        using False by (auto simp: less_Suc_eq_0_disj)
      with False Suc Cons.IH [of k] show ?thesis by simp
    qed
  qed
qed

lemma getElementById_Some:
  "getElementById i d = Some h \<Longrightarrow> h < length (nodes d) \<and> elementWith (\<lambda>e. ident e = i) (nodes d ! h)"
  by (simp add: getElementById_def firstWithId_Some_iff)

lemma firstWithId_take:
  assumes "firstWithId i ns = Some h" and "take (Suc h) ns' = take (Suc h) ns"
  shows "firstWithId i ns' = Some h"
proof -
  from assms(1) have h: "h < length ns" and e: "elementWith (\<lambda>e. ident e = i) (ns ! h)"
    and f: "\<forall>j<h. \<not> elementWith (\<lambda>e. ident e = i) (ns ! j)"
    by (simp_all add: firstWithId_Some_iff)
  have "length (take (Suc h) ns') = Suc h"
    using h by (simp add: assms(2))
  then have h': "h < length ns'" by simp
  have same: "ns' ! j = ns ! j" if "j \<le> h" for j
  proof -
    from that have "ns' ! j = take (Suc h) ns' ! j" by simp
    also have "\<dots> = take (Suc h) ns ! j" by (simp only: assms(2))
    also from that have "\<dots> = ns ! j" by simp
    finally show ?thesis .
  qed
  from h' e f show ?thesis
    by (simp add: firstWithId_Some_iff same)
qed

lemma firstWithId_cong:
  "map (elementWith (\<lambda>e. ident e = i)) ns' = map (elementWith (\<lambda>e. ident e = i)) ns \<Longrightarrow>
   firstWithId i ns' = firstWithId i ns"
proof (induction ns arbitrary: ns')
  case Nil
  then show ?case by simp
next
  case (Cons n ns)
  from Cons.prems obtain n' ns'' where ns': "ns' = n' # ns''"
    by (cases ns') auto
  with Cons.prems have "elementWith (\<lambda>e. ident e = i) n' = elementWith (\<lambda>e. ident e = i) n"
    and "map (elementWith (\<lambda>e. ident e = i)) ns'' = map (elementWith (\<lambda>e. ident e = i)) ns"
    by simp_all
  moreover from this have "firstWithId i ns'' = firstWithId i ns"
    by (intro Cons.IH)
  ultimately show ?case
    by (simp add: ns')
qed

subsection \<open>Reading values\<close>

lemma valueOf_valueIn: "valueOf ns h = valueIn (ns ! h) (drop (Suc h) ns)"
  unfolding valueOf_def valueIn_def textContent_def descendants_def ..

lemma valueOf_None_iff: "valueOf ns h = None \<longleftrightarrow> \<not> elementWith isField (ns ! h)"
  by (simp add: valueOf_def elementWith_def isField_def split: item.splits valueKind.splits)

lemma valueIn_own:
  "\<not> elementWith readsContent n \<Longrightarrow> valueIn n rest = valueIn n rest'"
  by (simp add: valueIn_def elementWith_def readsContent_def split: item.splits valueKind.splits)

lemma valueIn_takeWhile:
  "valueIn n (takeWhile (deeper n) rest) = valueIn n rest"
  by (simp add: valueIn_def takeWhile_idem split: item.splits valueKind.splits)

subsection \<open>The loop\<close>

lemma forEachRequired_count:
  "list_all (\<lambda>j. valueOf ns j \<noteq> None) fs \<Longrightarrow>
   forEachRequired ns fs n = Inr (n + int (length (filter (\<lambda>j. trimmedEmpty (valueOf ns j)) fs)))"
  by (induction fs arbitrary: n) (auto simp: trimmedEmpty_def)

lemma forEachRequired_throws:
  "\<not> list_all (\<lambda>j. valueOf ns j \<noteq> None) fs \<Longrightarrow> forEachRequired ns fs n = Inl TypeError"
  by (induction fs arbitrary: n) (auto split: option.splits)

lemma forEachRequired_values:
  "map (valueOf ns') fs' = map (valueOf ns) fs \<Longrightarrow>
   forEachRequired ns' fs' n = forEachRequired ns fs n"
proof (induction fs arbitrary: fs' n)
  case Nil
  then show ?case by simp
next
  case (Cons f fs)
  from Cons.prems obtain f' fs'' where fs': "fs' = f' # fs''"
    by (cases fs') auto
  with Cons.prems have v: "valueOf ns' f' = valueOf ns f" and "map (valueOf ns') fs'' = map (valueOf ns) fs"
    by simp_all
  then have "forEachRequired ns' fs'' m = forEachRequired ns fs m" for m
    by (intro Cons.IH)
  with v show ?case
    by (simp add: fs' split: option.splits)
qed

subsection \<open>Updating one element\<close>

lemma depth_onElement [simp]: "depth (onElement f n) = depth n"
  by (simp add: onElement_def split: item.splits)

lemma textOf_onElement [simp]: "textOf (onElement f n) = textOf n"
  by (simp add: onElement_def textOf_def split: item.splits)

lemma deeper_onElement [simp]:
  "deeper (onElement f n) m = deeper n m" "deeper m (onElement f n) = deeper m n"
  by (simp_all add: deeper_def)

lemma deeper_onElement_fun [simp]: "deeper (onElement f n) = deeper n"
  by (simp add: fun_eq_iff deeper_def)

lemma elementWith_onElement: "elementWith P (onElement f n) = elementWith (\<lambda>e. P (f e)) n"
  by (simp add: onElement_def elementWith_def split: item.splits)

lemma onElement_onElement: "onElement f (onElement g n) = onElement (\<lambda>e. f (g e)) n"
  by (simp add: onElement_def split: item.splits)

lemma onElement_cong:
  "(\<And>e. item n = ElementNode e \<Longrightarrow> f e = g e) \<Longrightarrow> onElement f n = onElement g n"
  by (simp add: onElement_def split: item.splits)

lemma length_updateElement [simp]:
  "length (nodes (updateElement h f d)) = length (nodes d)"
  by (simp add: updateElement_def)

lemma alerts_updateElement [simp]: "alerts (updateElement h f d) = alerts d"
  by (simp add: updateElement_def)

lemma canceled_updateElement [simp]: "canceled (updateElement h f d) = canceled d"
  by (simp add: updateElement_def)

lemma nth_updateElement:
  "nodes (updateElement h f d) ! j =
     (if j = h \<and> h < length (nodes d) then onElement f (nodes d ! h) else nodes d ! j)"
proof (cases "h < length (nodes d)")
  case True
  then show ?thesis by (auto simp: updateElement_def nth_list_update)
next
  case False
  then show ?thesis by (simp add: updateElement_def list_update_beyond not_less)
qed

lemma map_list_update_same:
  assumes "f x = f (xs ! h)"
  shows "map f (xs[h := x]) = map f xs"
proof (rule nth_equalityI)
  show "length (map f (xs[h := x])) = length (map f xs)" by simp
next
  fix j assume "j < length (map f (xs[h := x]))"
  then have "j < length xs" by simp
  then show "map f (xs[h := x]) ! j = map f xs ! j"
    using assms by (cases "j = h") simp_all
qed

lemma map_updateElement:
  assumes "\<And>n. g (onElement f n) = g n"
  shows "map g (nodes (updateElement h f d)) = map g (nodes d)"
  unfolding updateElement_def by (simp add: map_list_update_same assms)

lemma below_cong:
  assumes "map depth r' = map depth r" and "map F r' = map F r" and "depth n' = depth n"
  shows "map F (takeWhile (deeper n') r') = map F (takeWhile (deeper n) r)"
  using assms
proof (induction r arbitrary: r')
  case Nil
  then show ?case by simp
next
  case (Cons m r)
  from Cons.prems(1) obtain m' r'' where r': "r' = m' # r''"
    by (cases r') auto
  with Cons.prems have m: "depth m' = depth m" "F m' = F m"
    and r: "map depth r'' = map depth r" "map F r'' = map F r"
    by simp_all
  from r Cons.prems(3) have "map F (takeWhile (deeper n') r'') = map F (takeWhile (deeper n) r)"
    by (intro Cons.IH)
  moreover from m Cons.prems(3) have "deeper n' m' = deeper n m"
    by (simp add: deeper_def)
  ultimately show ?case
    using m by (simp add: r')
qed

lemma shapeOf_onElement [simp]: "shapeOf (onElement f n) = shapeOf n"
  by (simp add: onElement_def shapeOf_def split: item.splits)

lemma below_updateElement:
  assumes "\<And>n. F (onElement f n) = F n"
  shows "map F (takeWhile (deeper (nodes (updateElement h f d) ! j)) (drop (Suc j) (nodes (updateElement h f d)))) =
         map F (takeWhile (deeper (nodes d ! j)) (drop (Suc j) (nodes d)))"
proof -
  let ?ns = "nodes d" and ?ns' = "nodes (updateElement h f d)"
  have d: "map depth ?ns' = map depth ?ns" and t: "map F ?ns' = map F ?ns"
    by (simp_all add: map_updateElement assms)
  have dj: "depth (?ns' ! j) = depth (?ns ! j)"
    by (simp add: nth_updateElement)
  have "map depth (drop (Suc j) ?ns') = map depth (drop (Suc j) ?ns)"
    and "map F (drop (Suc j) ?ns') = map F (drop (Suc j) ?ns)"
    using d t by (simp_all only: drop_map [symmetric])
  then show ?thesis
    using dj by (rule below_cong)
qed

lemma valueOf_updateElement:
  assumes "\<And>e. val (f e) = val e"
  shows "valueOf (nodes (updateElement h f d)) j = valueOf (nodes d) j"
proof -
  let ?ns = "nodes d" and ?ns' = "nodes (updateElement h f d)"
  have sh: "map shapeOf (descendants ?ns' j) = map shapeOf (descendants ?ns j)"
    unfolding descendants_def by (rule below_updateElement) simp
  show ?thesis
  proof (cases "j = h \<and> h < length ?ns")
    case True
    with assms sh show ?thesis
      by (simp add: valueOf_def nth_updateElement onElement_def split: item.splits valueKind.splits)
  next
    case False
    with sh show ?thesis
      by (auto simp: valueOf_def nth_updateElement split: item.splits valueKind.splits)
  qed
qed

lemma getElementById_updateElement:
  assumes "\<And>e. ident (f e) = ident e"
  shows "getElementById i (updateElement h f d) = getElementById i d"
  unfolding getElementById_def
  by (rule firstWithId_cong, rule map_updateElement) (simp add: elementWith_onElement assms)

lemma elementWith_updateElement:
  assumes "\<And>e. P (f e) = P e"
  shows "elementWith P (nodes (updateElement h f d) ! j) = elementWith P (nodes d ! j)"
  by (simp add: nth_updateElement elementWith_onElement assms)

lemma querySelectorAll_updateElement:
  assumes "\<And>e. (c \<in> set (classList (f e))) = (c \<in> set (classList e))"
  shows "querySelectorAll c (updateElement h f d) = querySelectorAll c d"
  unfolding querySelectorAll_def
  by (simp add: elementWith_updateElement [where P = "\<lambda>e. c \<in> set (classList e)", OF assms])

lemma forEachRequired_updateElement:
  assumes "\<And>e. val (f e) = val e"
  shows "forEachRequired (nodes (updateElement h f d)) fs n = forEachRequired (nodes d) fs n"
  by (rule forEachRequired_values) (simp add: valueOf_updateElement assms)

lemma updateElement_twice:
  assumes "\<And>e. f (f e) = f e"
  shows "updateElement h f (updateElement h f d) = updateElement h f d"
proof (cases "h < length (nodes d)")
  case True
  have "onElement f (onElement f (nodes d ! h)) = onElement f (nodes d ! h)"
    by (simp add: onElement_onElement assms)
  with True show ?thesis by (simp add: updateElement_def)
next
  case False
  then show ?thesis by (simp add: updateElement_def list_update_beyond not_less)
qed

lemma updateElement_compose:
  "updateElement h f (updateElement h g d) = updateElement h (\<lambda>e. f (g e)) d"
proof (cases "h < length (nodes d)")
  case True
  then show ?thesis by (simp add: updateElement_def onElement_onElement)
next
  case False
  then show ?thesis by (simp add: updateElement_def list_update_beyond not_less)
qed

subsection \<open>Assigning the text content\<close>

lemma deeper_textNodes: "list_all (deeper n) (textNodes (Suc (depth n)) t)"
  by (simp add: textNodes_def deeper_def)

lemma no_element_textNodes: "list_all (\<lambda>m. \<not> elementWith P m) (textNodes k t)"
  by (simp add: textNodes_def elementWith_def)

lemma concat_textNodes: "concat (map textOf (textNodes k t)) = t"
  by (simp add: textNodes_def textOf_def)

lemma takeWhile_dropWhile_Nil: "takeWhile P (dropWhile P xs) = []"
  by (induction xs) auto

lemma takeWhile_all_append:
  "list_all P xs \<Longrightarrow> takeWhile P (xs @ dropWhile P ys) = xs"
  by (induction xs) (auto simp: takeWhile_dropWhile_Nil)

lemma dropWhile_all_append:
  "list_all P xs \<Longrightarrow> dropWhile P (xs @ dropWhile P ys) = dropWhile P ys"
  by (induction xs) (auto simp: dropWhile_idem)

lemma alerts_setTextContent [simp]: "alerts (setTextContent h t d) = alerts d"
  by (simp add: setTextContent_def)

lemma canceled_setTextContent [simp]: "canceled (setTextContent h t d) = canceled d"
  by (simp add: setTextContent_def)

lemma take_setTextContent:
  "take (Suc h) (nodes (setTextContent h t d)) = take (Suc h) (nodes d)"
  by (simp add: setTextContent_def min_absorb2 Suc_leI)

lemma length_setTextContent: "h < length (nodes d) \<Longrightarrow> h < length (nodes (setTextContent h t d))"
  by (simp add: setTextContent_def)

lemma nth_setTextContent: "j \<le> h \<Longrightarrow> nodes (setTextContent h t d) ! j = nodes d ! j"
proof -
  assume j: "j \<le> h"
  then have "nodes (setTextContent h t d) ! j = take (Suc h) (nodes (setTextContent h t d)) ! j"
    by simp
  also have "\<dots> = take (Suc h) (nodes d) ! j"
    by (simp only: take_setTextContent)
  also from j have "\<dots> = nodes d ! j" by simp
  finally show ?thesis .
qed

lemma drop_setTextContent:
  assumes "h < length (nodes d)"
  shows "drop (Suc h) (nodes (setTextContent h t d)) =
           textNodes (Suc (depth (nodes d ! h))) t @ dropWhile (deeper (nodes d ! h)) (drop (Suc h) (nodes d))"
  using assms by (simp add: setTextContent_def min_absorb2 Suc_leI)

lemma descendants_setTextContent:
  assumes "h < length (nodes d)"
  shows "descendants (nodes (setTextContent h t d)) h = textNodes (Suc (depth (nodes d ! h))) t"
  unfolding descendants_def
  by (simp add: drop_setTextContent [OF assms] nth_setTextContent takeWhile_all_append deeper_textNodes)

lemma textContent_setTextContent:
  assumes "h < length (nodes d)"
  shows "textContent (nodes (setTextContent h t d)) h = t"
  by (simp add: textContent_def descendants_setTextContent [OF assms] concat_textNodes)

lemma getElementById_setTextContent:
  assumes "getElementById i d = Some h"
  shows "getElementById i (setTextContent h t d) = Some h"
  using assms unfolding getElementById_def
  by (rule firstWithId_take) (rule take_setTextContent)

lemma setTextContent_twice:
  "setTextContent h t (setTextContent h t d) = setTextContent h t d"
proof (cases "h < length (nodes d)")
  case True
  let ?d = "setTextContent h t d"
  have h: "h < length (nodes ?d)"
    using True by (rule length_setTextContent)
  have "nodes (setTextContent h t ?d) =
          take (Suc h) (nodes ?d) @ textNodes (Suc (depth (nodes ?d ! h))) t @
          dropWhile (deeper (nodes ?d ! h)) (drop (Suc h) (nodes ?d))"
    using h by (simp add: setTextContent_def [of h t ?d])
  also have "\<dots> = take (Suc h) (nodes d) @ textNodes (Suc (depth (nodes d ! h))) t @
          dropWhile (deeper (nodes d ! h)) (drop (Suc h) (nodes d))"
    by (simp add: take_setTextContent nth_setTextContent drop_setTextContent [OF True]
          dropWhile_all_append deeper_textNodes)
  also have "\<dots> = nodes ?d"
    using True by (simp add: setTextContent_def)
  finally have "nodes (setTextContent h t ?d) = nodes ?d" .
  moreover have "alerts (setTextContent h t ?d) = alerts ?d" "canceled (setTextContent h t ?d) = canceled ?d"
    by simp_all
  ultimately show ?thesis by simp
next
  case False
  then show ?thesis by (simp add: setTextContent_def)
qed

lemma setTextContent_updateElement:
  "setTextContent h t (updateElement h f d) = updateElement h f (setTextContent h t d)"
proof (cases "h < length (nodes d)")
  case True
  let ?ns = "nodes d"
  let ?x = "onElement f (?ns ! h)"
  let ?tail = "textNodes (Suc (depth (?ns ! h))) t @ dropWhile (deeper (?ns ! h)) (drop (Suc h) ?ns)"
  have l: "nodes (setTextContent h t (updateElement h f d)) = (take (Suc h) ?ns)[h := ?x] @ ?tail"
    using True by (simp add: setTextContent_def updateElement_def take_update_swap)
  have "nodes (updateElement h f (setTextContent h t d)) =
          (nodes (setTextContent h t d))[h := onElement f (nodes (setTextContent h t d) ! h)]"
    by (simp add: updateElement_def)
  also have "\<dots> = (take (Suc h) ?ns @ ?tail)[h := ?x]"
    using True by (simp add: nth_setTextContent) (simp add: setTextContent_def)
  also have "\<dots> = (take (Suc h) ?ns)[h := ?x] @ ?tail"
    using True by (simp add: list_update_append1)
  finally have "nodes (setTextContent h t (updateElement h f d)) = nodes (updateElement h f (setTextContent h t d))"
    using l by simp
  moreover have "alerts (setTextContent h t (updateElement h f d)) = alerts (updateElement h f (setTextContent h t d))"
    "canceled (setTextContent h t (updateElement h f d)) = canceled (updateElement h f (setTextContent h t d))"
    by simp_all
  ultimately show ?thesis by simp
next
  case False
  then show ?thesis by (simp add: setTextContent_def updateElement_def list_update_beyond not_less)
qed

subsection \<open>The values along the list\<close>

lemma valueOf_Cons_0: "valueOf (n # ns) 0 = valueIn n ns"
  by (simp add: valueOf_valueIn)

lemma valueOf_Cons_Suc: "valueOf (n # ns) (Suc j) = valueOf ns j"
  by (simp add: valueOf_valueIn)

lemma upt_0_Suc_shift: "[0..<Suc k] = 0 # map Suc [0..<k]"
  by (simp add: upt_conv_Cons map_Suc_upt del: upt_Suc)

lemma valuesOf_valuesAlong: "valuesOf P ns = valuesAlong P ns"
proof (induction ns)
  case Nil
  then show ?case by (simp add: valuesOf_def)
next
  case (Cons n ns)
  have "map (valueOf (n # ns)) (filter (\<lambda>j. elementWith P ((n # ns) ! j)) (map Suc [0..<length ns])) =
        map (valueOf ns) (filter (\<lambda>j. elementWith P (ns ! j)) [0..<length ns])"
    by (simp add: filter_map comp_def valueOf_Cons_Suc)
  also have "\<dots> = valuesAlong P ns"
    using Cons.IH by (simp add: valuesOf_def)
  finally have tail: "map (valueOf (n # ns))
      (filter (\<lambda>j. elementWith P ((n # ns) ! j)) (map Suc [0..<length ns])) = valuesAlong P ns" .
  have "valuesOf P (n # ns) =
        map (valueOf (n # ns)) (filter (\<lambda>j. elementWith P ((n # ns) ! j)) (0 # map Suc [0..<length ns]))"
    unfolding valuesOf_def by (simp only: length_Cons upt_0_Suc_shift)
  also have "\<dots> = valuesAlong P (n # ns)"
    using tail by (simp add: valueOf_Cons_0)
  finally show ?case .
qed

lemma valuesAlong_skip:
  "list_all (\<lambda>m. \<not> elementWith P m) xs \<Longrightarrow> valuesAlong P (xs @ ys) = valuesAlong P ys"
  by (induction xs) simp_all

lemma takeWhile_stops:
  "\<not> list_all Q xs \<Longrightarrow> takeWhile Q (xs @ ys) = takeWhile Q xs"
  by (induction xs) simp_all

lemma valueIn_stops:
  assumes "\<not> list_all (deeper n) xs"
  shows "valueIn n (xs @ ys) = valueIn n xs"
  by (simp add: valueIn_def takeWhile_stops [OF assms] split: item.splits valueKind.splits)

lemma valuesAlong_around:
  assumes "noContentValueAround P (pre @ [x])" and "valuesAlong P rest' = valuesAlong P rest"
  shows "valuesAlong P (pre @ x # rest') = valuesAlong P (pre @ x # rest)"
  using assms(1)
proof (induction pre)
  case Nil
  then have "elementWith P x \<Longrightarrow> \<not> elementWith readsContent x"
    by simp
  then have "elementWith P x \<Longrightarrow> valueIn x rest' = valueIn x rest"
    by (rule valueIn_own)
  with assms(2) show ?case by simp
next
  case (Cons n pre)
  from Cons.prems have tail: "noContentValueAround P (pre @ [x])"
    and n: "elementWith P n \<and> elementWith readsContent n \<longrightarrow> \<not> list_all (deeper n) (pre @ [x])"
    by simp_all
  have v: "valueIn n (pre @ x # rest') = valueIn n (pre @ x # rest)" if "elementWith P n"
  proof (cases "elementWith readsContent n")
    case True
    with that n have stop: "\<not> list_all (deeper n) (pre @ [x])" by simp
    have "valueIn n ((pre @ [x]) @ rest') = valueIn n ((pre @ [x]) @ rest)"
      by (simp only: valueIn_stops [OF stop])
    then show ?thesis by simp
  next
    case False
    then show ?thesis by (rule valueIn_own)
  qed
  from tail have "valuesAlong P (pre @ x # rest') = valuesAlong P (pre @ x # rest)"
    by (rule Cons.IH)
  with v show ?case by simp
qed

lemma valuesOf_setTextContent:
  assumes "h < length (nodes d)"
    and "list_all (\<lambda>n. \<not> elementWith P n) (descendants (nodes d) h)"
    and "noContentValueAround P (take (Suc h) (nodes d))"
  shows "valuesOf P (nodes (setTextContent h t d)) = valuesOf P (nodes d)"
proof -
  let ?ns = "nodes d"
  let ?x = "?ns ! h"
  let ?post = "dropWhile (deeper ?x) (drop (Suc h) ?ns)"
  let ?new = "textNodes (Suc (depth ?x)) t"
  have pre: "take (Suc h) ?ns = take h ?ns @ [?x]"
    using assms(1) by (rule take_Suc_conv_app_nth)
  have ns: "?ns = take h ?ns @ ?x # (descendants ?ns h @ ?post)"
    using assms(1) by (simp add: descendants_def id_take_nth_drop [symmetric])
  have ns': "nodes (setTextContent h t d) = take h ?ns @ ?x # (?new @ ?post)"
    using assms(1) by (simp add: setTextContent_def pre)
  have "valuesAlong P (?new @ ?post) = valuesAlong P ?post"
    by (rule valuesAlong_skip) (rule no_element_textNodes)
  also have "\<dots> = valuesAlong P (descendants ?ns h @ ?post)"
    using assms(2) by (simp only: valuesAlong_skip)
  finally have rest: "valuesAlong P (?new @ ?post) = valuesAlong P (descendants ?ns h @ ?post)" .
  from assms(3) have "noContentValueAround P (take h ?ns @ [?x])"
    by (simp only: pre)
  then have "valuesAlong P (take h ?ns @ ?x # (?new @ ?post)) =
             valuesAlong P (take h ?ns @ ?x # (descendants ?ns h @ ?post))"
    using rest by (rule valuesAlong_around)
  then have "valuesAlong P (nodes (setTextContent h t d)) = valuesAlong P ?ns"
    using ns ns' by simp
  then show ?thesis
    by (simp only: valuesOf_valuesAlong)
qed

lemma valuesOf_updateElement:
  assumes "\<And>e. P (f e) = P e" and "\<And>e. val (f e) = val e"
  shows "valuesOf P (nodes (updateElement h f d)) = valuesOf P (nodes d)"
  unfolding valuesOf_def
  by (simp add: elementWith_updateElement [where P = P, OF assms(1)] valueOf_updateElement [OF assms(2)])

lemma valueOf_first:
  "map_option (valueOf ns) (firstWithId i ns) =
     (case valuesAlong (\<lambda>e. ident e = i) ns of [] \<Rightarrow> None | v # vs \<Rightarrow> Some v)"
proof (induction ns)
  case Nil
  then show ?case by simp
next
  case (Cons n ns)
  show ?case
  proof (cases "elementWith (\<lambda>e. ident e = i) n")
    case True
    then show ?thesis by (simp add: valueOf_Cons_0)
  next
    case False
    have "map_option (valueOf (n # ns)) (map_option Suc (firstWithId i ns)) =
          map_option (valueOf ns) (firstWithId i ns)"
      by (simp add: option.map_comp comp_def valueOf_Cons_Suc)
    with False Cons.IH show ?thesis by simp
  qed
qed

subsection \<open>The elements along the list\<close>







subsection \<open>The two checks\<close>

lemma textContent_updateElement:
  "textContent (nodes (updateElement h f d)) j = textContent (nodes d) j"
proof -
  have "map textOf (descendants (nodes (updateElement h f d)) j) = map textOf (descendants (nodes d) j)"
    unfolding descendants_def by (rule below_updateElement) simp
  then show ?thesis
    by (simp add: textContent_def)
qed

lemma alerts_renderStatus [simp]: "alerts (renderStatus h n d) = alerts d"
  by (simp add: renderStatus_def setStyleColor_def)

lemma canceled_renderStatus [simp]: "canceled (renderStatus h n d) = canceled d"
  by (simp add: renderStatus_def setStyleColor_def)

lemma getElementById_renderStatus:
  assumes "getElementById i d = Some h"
  shows "getElementById i (renderStatus h n d) = Some h"
  using assms
  by (simp add: renderStatus_def setStyleColor_def getElementById_updateElement getElementById_setTextContent)

lemma textContent_renderStatus:
  assumes "h < length (nodes d)"
  shows "textContent (nodes (renderStatus h n d)) h = statusText n"
  using assms
  by (simp add: renderStatus_def setStyleColor_def textContent_updateElement textContent_setTextContent)

lemma item_renderStatus:
  assumes "h < length (nodes d)" and "item (nodes d ! h) = ElementNode e"
  shows "item (nodes (renderStatus h n d) ! h) = ElementNode (e\<lparr>styleColor := statusColor n\<rparr>)"
  using assms
  by (simp add: renderStatus_def setStyleColor_def nth_updateElement length_setTextContent
        nth_setTextContent onElement_def)

lemma renderStatus_twice: "renderStatus h n (renderStatus h n d) = renderStatus h n d"
  by (simp add: renderStatus_def setStyleColor_def setTextContent_updateElement
        setTextContent_twice updateElement_twice)

lemma valuesOf_renderStatus:
  assumes "h < length (nodes d)"
    and "list_all (\<lambda>n. \<not> elementWith P n) (descendants (nodes d) h)"
    and "noContentValueAround P (take (Suc h) (nodes d))"
    and "\<And>e c. P (e\<lparr>styleColor := c\<rparr>) = P e"
  shows "valuesOf P (nodes (renderStatus h n d)) = valuesOf P (nodes d)"
  using assms
  by (simp add: renderStatus_def setStyleColor_def valuesOf_updateElement valuesOf_setTextContent)

lemma checkMissing_eq:
  "checkMissing d =
     (case forEachRequired (nodes d) (querySelectorAll ''required'' d) 0 of
        Inl e \<Rightarrow> (Inl e, d)
      | Inr n \<Rightarrow>
          (case getElementById ''missing-count'' d of
             None \<Rightarrow> (Inr n, d)
           | Some h \<Rightarrow> (Inr n, renderStatus h n d)))"
proof (cases "forEachRequired (nodes d) (querySelectorAll ''required'' d) 0")
  case (Inl e)
  then show ?thesis by (simp add: checkMissing_def)
next
  case (Inr n)
  show ?thesis
  proof (cases "getElementById ''missing-count'' d")
    case None
    with Inr show ?thesis by (simp add: checkMissing_def)
  next
    case (Some h)
    with Inr show ?thesis
      by (simp add: checkMissing_def renderStatus_def statusText_def statusColor_def)
  qed
qed

lemma markInvalid_simps [simp]:
  "val (markInvalid b e) = val e"
  "ident (markInvalid b e) = ident e"
  "styleColor (markInvalid b e) = styleColor e"
  "markInvalid b (markInvalid b e) = markInvalid b e"
  by (simp_all add: markInvalid_def)

lemma isField_simps [simp]:
  "isField (e\<lparr>styleColor := c\<rparr>) = isField e"
  "isField (markInvalid b e) = isField e"
  by (simp_all add: isField_def)

lemma validateEmail_eq:
  "validateEmail d =
     (case getElementById ''email'' d of
        None \<Rightarrow> (Inr True, d)
      | Some h \<Rightarrow>
          (case valueOf (nodes d) h of
             None \<Rightarrow> (Inl TypeError, d)
           | Some v \<Rightarrow> (Inr (8 \<le> length (trim v)), updateElement h (markInvalid (8 \<le> length (trim v))) d)))"
proof (cases "getElementById ''email'' d")
  case None
  then show ?thesis by (simp add: validateEmail_def)
next
  case (Some h)
  show ?thesis
  proof (cases "valueOf (nodes d) h")
    case None
    with \<open>getElementById ''email'' d = Some h\<close> show ?thesis
      by (simp add: validateEmail_def)
  next
    case (Some v)
    have "classListAdd h ''invalid'' d = updateElement h (markInvalid False) d"
      by (simp add: classListAdd_def markInvalid_def [abs_def])
    moreover have "classListRemove h ''invalid'' d = updateElement h (markInvalid True) d"
      by (simp add: classListRemove_def markInvalid_def [abs_def])
    ultimately show ?thesis
      using Some \<open>getElementById ''email'' d = Some h\<close>
      by (cases "8 \<le> length (trim v)") (simp_all add: validateEmail_def)
  qed
qed

lemma validateEmail_twice: "validateEmail (snd (validateEmail d)) = validateEmail d"
proof (cases "getElementById ''email'' d")
  case None
  then show ?thesis by (simp add: validateEmail_eq)
next
  case (Some h)
  show ?thesis
  proof (cases "valueOf (nodes d) h")
    case None
    with Some show ?thesis by (simp add: validateEmail_eq)
  next
    case (Some v)
    let ?ok = "8 \<le> length (trim v)"
    let ?d = "updateElement h (markInvalid ?ok) d"
    have 1: "validateEmail d = (Inr ?ok, ?d)"
      using Some \<open>getElementById ''email'' d = Some h\<close> by (simp add: validateEmail_eq)
    have 2: "getElementById ''email'' ?d = Some h"
      using \<open>getElementById ''email'' d = Some h\<close> by (simp add: getElementById_updateElement)
    have 3: "valueOf (nodes ?d) h = Some v"
      using Some by (simp add: valueOf_updateElement)
    have 4: "updateElement h (markInvalid ?ok) ?d = ?d"
      by (rule updateElement_twice) simp
    have "validateEmail ?d = (Inr ?ok, ?d)"
      by (simp add: validateEmail_eq [of ?d] 2 3 4)
    with 1 show ?thesis by simp
  qed
qed

subsection \<open>Counting the missing fields\<close>

lemma trimmedEmpty_iff_onlyWhiteSpace: "trimmedEmpty x = onlyWhiteSpace x"
  by (simp add: trimmedEmpty_def onlyWhiteSpace_def trim_Nil_iff split: option.splits)

lemma missingFields_eq_blankFields: "missingFields d = blankFields d"
  by (simp add: missingFields_def blankFields_def trimmedEmpty_iff_onlyWhiteSpace)

lemma length_missingFields_card:
  "length (missingFields d) =
     card {j. j < length (nodes d) \<and> elementWith isRequired (nodes d ! j) \<and>
              trimmedEmpty (valueOf (nodes d) j)}"
proof -
  have r: "isRequired = (\<lambda>e. ''required'' \<in> set (classList e))"
    by (simp add: fun_eq_iff isRequired_def)
  have "distinct (missingFields d)"
    by (simp add: missingFields_def querySelectorAll_def)
  then have "length (missingFields d) = card (set (missingFields d))"
    by (simp add: distinct_card)
  also have "set (missingFields d) =
     {j. j < length (nodes d) \<and> elementWith isRequired (nodes d ! j) \<and>
         trimmedEmpty (valueOf (nodes d) j)}"
    by (auto simp: missingFields_def querySelectorAll_def r)
  finally show ?thesis .
qed

lemma checkMissing_result:
  assumes "requiredHaveText d"
  shows "fst (checkMissing d) = Inr (int (length (missingFields d)))"
  using forEachRequired_count [of "nodes d" "querySelectorAll ''required'' d" 0] assms
  by (simp add: checkMissing_eq requiredHaveText_def missingFields_def split: option.splits)

lemma checkMissing_throws:
  assumes "\<not> requiredHaveText d"
  shows "checkMissing d = (Inl TypeError, d)"
  using forEachRequired_throws [of "nodes d" "querySelectorAll ''required'' d" 0] assms
  by (simp add: checkMissing_eq requiredHaveText_def)

section \<open>The claims\<close>

text \<open>
  Claim C1. On a page whose required fields all have a text value, \<open>checkMissing\<close>
  returns the number of required fields whose trimmed value is the empty string. These
  are exactly the required fields whose value holds nothing but whitespace, each is
  counted once, and the number is an integer that is not negative.
\<close>
theorem checkMissing_counts_missing_fields:
  assumes "requiredHaveText d"
  shows "fst (checkMissing d) = Inr (int (length (missingFields d))) \<and>
         missingFields d = blankFields d \<and>
         length (missingFields d) =
           card {j. j < length (nodes d) \<and> elementWith isRequired (nodes d ! j) \<and>
                    trimmedEmpty (valueOf (nodes d) j)} \<and>
         (0::int) \<le> int (length (missingFields d))"
  using assms
  by (simp add: checkMissing_result missingFields_eq_blankFields [symmetric] length_missingFields_card [symmetric])

theorem checkMissing_counts_missing_fields_witness:
  "requiredHaveText (contactForm [0x20, 0x09] [0x20] (lit ''abc'')) \<and>
   fst (checkMissing (contactForm [0x20, 0x09] [0x20] (lit ''abc''))) = Inr 2"
proof -
  let ?d = "contactForm [0x20, 0x09] [0x20] (lit ''abc'')"
  have h: "requiredHaveText ?d"
    by code_simp
  have n: "missingFields ?d = [1, 4]"
    by code_simp
  from checkMissing_counts_missing_fields [OF h] n h show ?thesis
    by simp
qed

text \<open>
  Claim C5. When no element has the id \<open>email\<close>, \<open>validateEmail\<close> returns true,
  throws nothing and leaves the whole document as it was.
\<close>
theorem validateEmail_without_email_field:
  assumes "getElementById ''email'' d = None"
  shows "validateEmail d = (Inr True, d)"
  using assms by (simp add: validateEmail_def)

theorem validateEmail_without_email_field_witness:
  "getElementById ''email'' (formWithoutEmail (lit ''Ann'') (lit ''hello'')) = None \<and>
   validateEmail (formWithoutEmail (lit ''Ann'') (lit ''hello'')) =
     (Inr True, formWithoutEmail (lit ''Ann'') (lit ''hello''))"
proof -
  have h: "getElementById ''email'' (formWithoutEmail (lit ''Ann'') (lit ''hello'')) = None"
    by code_simp
  from validateEmail_without_email_field [OF h] h show ?thesis
    by simp
qed

text \<open>
  Claim C6. When no element has the id \<open>missing-count\<close>, \<open>checkMissing\<close> writes
  nothing, throws nothing and still returns the number of missing required fields.
\<close>
theorem checkMissing_without_status_display:
  assumes "getElementById ''missing-count'' d = None" and "requiredHaveText d"
  shows "checkMissing d = (Inr (int (length (missingFields d))), d)"
  using forEachRequired_count [of "nodes d" "querySelectorAll ''required'' d" 0] assms
  by (simp add: checkMissing_eq requiredHaveText_def missingFields_def)

theorem checkMissing_without_status_display_witness:
  "getElementById ''missing-count'' (formWithoutStatus [] [] (lit ''a@b.example'')) = None \<and>
   requiredHaveText (formWithoutStatus [] [] (lit ''a@b.example'')) \<and>
   checkMissing (formWithoutStatus [] [] (lit ''a@b.example'')) =
     (Inr 2, formWithoutStatus [] [] (lit ''a@b.example''))"
proof -
  let ?d = "formWithoutStatus [] [] (lit ''a@b.example'')"
  have h1: "getElementById ''missing-count'' ?d = None"
    by code_simp
  have h2: "requiredHaveText ?d"
    by code_simp
  have n: "missingFields ?d = [1, 3]"
    by code_simp
  from checkMissing_without_status_display [OF h1 h2] n h1 h2 show ?thesis
    by simp
qed

lemma validateEmail_result:
  assumes "getElementById ''email'' d = Some h" and "valueOf (nodes d) h = Some v"
  shows "validateEmail d =
           (Inr (8 \<le> length (trim v)), updateElement h (markInvalid (8 \<le> length (trim v))) d)"
  using assms by (simp add: validateEmail_eq)

lemma invalid_markInvalid:
  "''invalid'' \<in> set (classList (markInvalid b e)) \<longleftrightarrow> \<not> b"
  by (simp add: markInvalid_def)

text \<open>
  Claim C2. When the email field exists, with value \<open>v\<close>, \<open>validateEmail\<close> returns
  true exactly when the trimmed value has at least 8 code units, and false exactly when
  it has fewer: true at length 8, false at length 7.
\<close>
theorem validateEmail_true_iff_trimmed_length_ge_8:
  assumes "getElementById ''email'' d = Some h" and "valueOf (nodes d) h = Some v"
  shows "(fst (validateEmail d) = Inr True \<longleftrightarrow> 8 \<le> length (trim v)) \<and>
         (fst (validateEmail d) = Inr False \<longleftrightarrow> length (trim v) < 8) \<and>
         (length (trim v) = 8 \<longrightarrow> fst (validateEmail d) = Inr True) \<and>
         (length (trim v) = 7 \<longrightarrow> fst (validateEmail d) = Inr False)"
  using assms by (auto simp: validateEmail_result)

theorem validateEmail_true_iff_trimmed_length_ge_8_witness:
  "getElementById ''email'' (contactForm (lit ''Ann'') (lit ''hello'') (lit '' a@b.test '')) = Some 2 \<and>
   valueOf (nodes (contactForm (lit ''Ann'') (lit ''hello'') (lit '' a@b.test ''))) 2
     = Some (lit '' a@b.test '') \<and>
   length (trim (lit '' a@b.test '')) = 8 \<and>
   fst (validateEmail (contactForm (lit ''Ann'') (lit ''hello'') (lit '' a@b.test ''))) = Inr True \<and>
   getElementById ''email'' (contactForm (lit ''Ann'') (lit ''hello'') (lit '' a@b.tes '')) = Some 2 \<and>
   valueOf (nodes (contactForm (lit ''Ann'') (lit ''hello'') (lit '' a@b.tes ''))) 2
     = Some (lit '' a@b.tes '') \<and>
   length (trim (lit '' a@b.tes '')) = 7 \<and>
   fst (validateEmail (contactForm (lit ''Ann'') (lit ''hello'') (lit '' a@b.tes ''))) = Inr False"
proof -
  let ?d8 = "contactForm (lit ''Ann'') (lit ''hello'') (lit '' a@b.test '')"
  let ?d7 = "contactForm (lit ''Ann'') (lit ''hello'') (lit '' a@b.tes '')"
  have g8: "getElementById ''email'' ?d8 = Some 2" by code_simp
  have v8: "valueOf (nodes ?d8) 2 = Some (lit '' a@b.test '')" by code_simp
  have l8: "length (trim (lit '' a@b.test '')) = 8" by code_simp
  have g7: "getElementById ''email'' ?d7 = Some 2" by code_simp
  have v7: "valueOf (nodes ?d7) 2 = Some (lit '' a@b.tes '')" by code_simp
  have l7: "length (trim (lit '' a@b.tes '')) = 7" by code_simp
  from validateEmail_true_iff_trimmed_length_ge_8 [OF g8 v8]
       validateEmail_true_iff_trimmed_length_ge_8 [OF g7 v7] g8 v8 l8 g7 v7 l7
  show ?thesis by simp
qed

text \<open>
  Claim C8. When the email field exists, after \<open>validateEmail\<close> its class tokens
  contain \<open>invalid\<close> exactly when the trimmed value is shorter than 8, and are free of
  it exactly when the call returned true. The field is still the email field and holds
  the same value.
\<close>
theorem validateEmail_marks_email_field:
  assumes "getElementById ''email'' d = Some h" and "valueOf (nodes d) h = Some v"
  shows "(elementWith (\<lambda>e. ''invalid'' \<in> set (classList e)) (nodes (snd (validateEmail d)) ! h)
            \<longleftrightarrow> length (trim v) < 8) \<and>
         (elementWith (\<lambda>e. ''invalid'' \<notin> set (classList e)) (nodes (snd (validateEmail d)) ! h)
            \<longleftrightarrow> fst (validateEmail d) = Inr True) \<and>
         getElementById ''email'' (snd (validateEmail d)) = Some h \<and>
         valueOf (nodes (snd (validateEmail d))) h = Some v"
proof -
  have h: "h < length (nodes d)" and "elementWith (\<lambda>e. ident e = ''email'') (nodes d ! h)"
    using assms(1) by (simp_all add: getElementById_Some)
  then obtain e where e: "item (nodes d ! h) = ElementNode e"
    by (auto simp: elementWith_def split: item.splits)
  let ?ok = "8 \<le> length (trim v)"
  have d': "snd (validateEmail d) = updateElement h (markInvalid ?ok) d"
    and r: "fst (validateEmail d) = Inr ?ok"
    using assms by (simp_all add: validateEmail_result)
  have "item (nodes (snd (validateEmail d)) ! h) = ElementNode (markInvalid ?ok e)"
    using h e by (simp add: d' nth_updateElement onElement_def)
  then have 1: "elementWith P (nodes (snd (validateEmail d)) ! h) = P (markInvalid ?ok e)" for P
    by (simp add: elementWith_def)
  have 2: "getElementById ''email'' (snd (validateEmail d)) = Some h"
    using assms(1) by (simp add: d' getElementById_updateElement)
  have 3: "valueOf (nodes (snd (validateEmail d))) h = Some v"
    using assms(2) by (simp add: d' valueOf_updateElement)
  show ?thesis
    by (auto simp: 1 2 3 r invalid_markInvalid)
qed

theorem validateEmail_marks_email_field_witness:
  "getElementById ''email'' (contactForm (lit ''Ann'') (lit ''hello'') (lit ''short'')) = Some 2 \<and>
   valueOf (nodes (contactForm (lit ''Ann'') (lit ''hello'') (lit ''short''))) 2 = Some (lit ''short'') \<and>
   elementWith (\<lambda>e. ''invalid'' \<in> set (classList e))
      (nodes (snd (validateEmail (contactForm (lit ''Ann'') (lit ''hello'') (lit ''short'')))) ! 2)"
proof -
  let ?d = "contactForm (lit ''Ann'') (lit ''hello'') (lit ''short'')"
  have g: "getElementById ''email'' ?d = Some 2" by code_simp
  have v: "valueOf (nodes ?d) 2 = Some (lit ''short'')" by code_simp
  have l: "length (trim (lit ''short'')) = 5" by code_simp
  from validateEmail_marks_email_field [OF g v] g v l show ?thesis by simp
qed

text \<open>
  Claim C7. When the status display exists (and the required fields have text values),
  after \<open>checkMissing\<close> its text is the count followed by
  \<open>required field(s) still incomplete.\<close> and its colour is red when some required
  field is missing; its text is \<open>All required fields completed.\<close> and its colour is
  green when none is.
\<close>
theorem checkMissing_renders_status:
  assumes "getElementById ''missing-count'' d = Some h" and "requiredHaveText d"
  shows "textContent (nodes (snd (checkMissing d))) h =
           (if missingFields d \<noteq> []
            then numberToString (int (length (missingFields d))) @ lit '' required field(s) still incomplete.''
            else lit ''All required fields completed.'') \<and>
         elementWith (\<lambda>e. styleColor e = (if missingFields d \<noteq> [] then lit ''red'' else lit ''green''))
           (nodes (snd (checkMissing d)) ! h) \<and>
         getElementById ''missing-count'' (snd (checkMissing d)) = Some h"
proof -
  let ?n = "int (length (missingFields d))"
  have loop: "forEachRequired (nodes d) (querySelectorAll ''required'' d) 0 = Inr ?n"
    using forEachRequired_count [of "nodes d" "querySelectorAll ''required'' d" 0] assms(2)
    by (simp add: requiredHaveText_def missingFields_def)
  then have d': "snd (checkMissing d) = renderStatus h ?n d"
    using assms(1) by (simp add: checkMissing_eq)
  have h: "h < length (nodes d)" and "elementWith (\<lambda>e. ident e = ''missing-count'') (nodes d ! h)"
    using assms(1) by (simp_all add: getElementById_Some)
  then obtain e where e: "item (nodes d ! h) = ElementNode e"
    by (auto simp: elementWith_def split: item.splits)
  have 1: "textContent (nodes (snd (checkMissing d))) h = statusText ?n"
    using h by (simp add: d' textContent_renderStatus)
  have "item (nodes (snd (checkMissing d)) ! h) = ElementNode (e\<lparr>styleColor := statusColor ?n\<rparr>)"
    using h e by (simp add: d' item_renderStatus)
  then have 2: "elementWith (\<lambda>e. styleColor e = statusColor ?n) (nodes (snd (checkMissing d)) ! h)"
    by (simp add: elementWith_def)
  have 3: "getElementById ''missing-count'' (snd (checkMissing d)) = Some h"
    using assms(1) by (simp add: d' getElementById_renderStatus)
  from 1 2 3 show ?thesis
    by (simp add: statusText_def statusColor_def)
qed

theorem checkMissing_renders_status_witness:
  "getElementById ''missing-count'' (contactForm [] (lit ''x'') (lit ''abc'')) = Some 3 \<and>
   requiredHaveText (contactForm [] (lit ''x'') (lit ''abc'')) \<and>
   textContent (nodes (snd (checkMissing (contactForm [] (lit ''x'') (lit ''abc''))))) 3 =
     lit ''1 required field(s) still incomplete.'' \<and>
   elementWith (\<lambda>e. styleColor e = lit ''red'')
     (nodes (snd (checkMissing (contactForm [] (lit ''x'') (lit ''abc'')))) ! 3) \<and>
   getElementById ''missing-count'' (contactForm (lit ''a'') (lit ''b'') (lit ''abcdefgh'')) = Some 3 \<and>
   requiredHaveText (contactForm (lit ''a'') (lit ''b'') (lit ''abcdefgh'')) \<and>
   textContent (nodes (snd (checkMissing (contactForm (lit ''a'') (lit ''b'') (lit ''abcdefgh''))))) 3 =
     lit ''All required fields completed.'' \<and>
   elementWith (\<lambda>e. styleColor e = lit ''green'')
     (nodes (snd (checkMissing (contactForm (lit ''a'') (lit ''b'') (lit ''abcdefgh'')))) ! 3)"
proof -
  let ?a = "contactForm [] (lit ''x'') (lit ''abc'')"
  let ?b = "contactForm (lit ''a'') (lit ''b'') (lit ''abcdefgh'')"
  have ga: "getElementById ''missing-count'' ?a = Some 3" by code_simp
  have ra: "requiredHaveText ?a" by code_simp
  have ma: "missingFields ?a = [1]" by code_simp
  have gb: "getElementById ''missing-count'' ?b = Some 3" by code_simp
  have rb: "requiredHaveText ?b" by code_simp
  have mb: "missingFields ?b = []" by code_simp
  have t: "numberToString 1 @ lit '' required field(s) still incomplete.''
             = lit ''1 required field(s) still incomplete.''" by code_simp
  from checkMissing_renders_status [OF ga ra] checkMissing_renders_status [OF gb rb]
       ga ra ma gb rb mb t
  show ?thesis by simp
qed

lemma canceled_checkMissing: "canceled (snd (checkMissing d)) = canceled d"
  by (simp add: checkMissing_eq split: sum.splits option.splits)

lemma canceled_validateEmail: "canceled (snd (validateEmail d)) = canceled d"
  by (simp add: validateEmail_eq split: option.splits)

lemma canceled_alert: "canceled (alert m d) = canceled d"
  by (simp add: alert_def)

lemma alerts_checkMissing: "alerts (snd (checkMissing d)) = alerts d"
  by (simp add: checkMissing_eq split: sum.splits option.splits)

lemma alerts_validateEmail: "alerts (snd (validateEmail d)) = alerts d"
  by (simp add: validateEmail_eq split: option.splits)

lemma validateForm_cases:
  obtains (missingThrows) e where "fst (checkMissing d) = Inl e"
      and "validateForm d = (Inl e, snd (checkMissing d))"
  | (emailThrows) n e where "fst (checkMissing d) = Inr n"
      and "fst (validateEmail (snd (checkMissing d))) = Inl e"
      and "validateForm d = (Inl e, snd (validateEmail (snd (checkMissing d))))"
  | (notifies) n ok where "fst (checkMissing d) = Inr n"
      and "fst (validateEmail (snd (checkMissing d))) = Inr ok"
      and "validateForm d =
             (Inr (), alert (if n > 0 \<or> \<not> ok then warningMessage else successMessage)
                        (snd (validateEmail (snd (checkMissing d)))))"
proof (cases "checkMissing d")
  case (Pair r d1)
  show ?thesis
  proof (cases r)
    case (Inl e)
    with Pair show ?thesis by (intro missingThrows [of e]) (simp_all add: validateForm_def)
  next
    case (Inr n)
    show ?thesis
    proof (cases "validateEmail d1")
      case vp: (Pair r2 d2)
      show ?thesis
      proof (cases r2)
        case (Inl e)
        with Pair Inr vp show ?thesis
          by (intro emailThrows [of n e]) (simp_all add: validateForm_def)
      next
        case ok: (Inr ok)
        with Pair Inr vp show ?thesis
          by (intro notifies [of n ok]) (simp_all add: validateForm_def)
      qed
    qed
  qed
qed

text \<open>
  Claim C4. On every path of \<open>validateForm\<close>, whatever the two checks return or throw,
  the canceled flag of the event being dispatched is as it was before: the default action
  of the event is never prevented.
\<close>
theorem validateForm_never_cancels_event:
  "canceled (snd (validateForm d)) = canceled d"
  by (cases d rule: validateForm_cases)
     (simp_all add: canceled_checkMissing canceled_validateEmail canceled_alert)

theorem validateForm_never_cancels_event_witness:
  "fst (validateForm (contactForm [] (lit ''x'') (lit ''abc''))) = Inr () \<and>
   \<not> canceled (snd (validateForm (contactForm [] (lit ''x'') (lit ''abc'')))) \<and>
   fst (validateForm (contactForm (lit ''a'') (lit ''b'') (lit ''abcdefgh''))) = Inr () \<and>
   \<not> canceled (snd (validateForm (contactForm (lit ''a'') (lit ''b'') (lit ''abcdefgh''))))"
proof -
  let ?a = "contactForm [] (lit ''x'') (lit ''abc'')"
  let ?b = "contactForm (lit ''a'') (lit ''b'') (lit ''abcdefgh'')"
  have ra: "fst (validateForm ?a) = Inr ()" by code_simp
  have rb: "fst (validateForm ?b) = Inr ()" by code_simp
  have ca: "\<not> canceled ?a" by (simp add: contactForm_def)
  have cb: "\<not> canceled ?b" by (simp add: contactForm_def)
  from validateForm_never_cancels_event [of ?a] validateForm_never_cancels_event [of ?b] ra rb ca cb
  show ?thesis by simp
qed

subsection \<open>The status display apart from the fields\<close>

lemma isRequired_fun: "isRequired = (\<lambda>e. ''required'' \<in> set (classList e))"
  by (simp add: fun_eq_iff isRequired_def)

lemma isEmail_fun: "isEmail = (\<lambda>e. ident e = ''email'')"
  by (simp add: fun_eq_iff isEmail_def)

lemma statusDisplayApartD:
  assumes "statusDisplayApart P d" and "getElementById ''missing-count'' d = Some h"
  shows "list_all (\<lambda>n. \<not> elementWith P n) (descendants (nodes d) h)"
    and "noContentValueAround P (take (Suc h) (nodes d))"
  using assms by (simp_all add: statusDisplayApart_def)

lemma valuesOf_checkMissing:
  assumes "statusDisplayApart P d" and "\<And>e c. P (e\<lparr>styleColor := c\<rparr>) = P e"
  shows "valuesOf P (nodes (snd (checkMissing d))) = valuesOf P (nodes d)"
proof (cases "forEachRequired (nodes d) (querySelectorAll ''required'' d) 0")
  case (Inl e)
  then show ?thesis by (simp add: checkMissing_eq)
next
  case (Inr n)
  show ?thesis
  proof (cases "getElementById ''missing-count'' d")
    case None
    with Inr show ?thesis by (simp add: checkMissing_eq)
  next
    case (Some h)
    then have "h < length (nodes d)"
      by (simp add: getElementById_Some)
    then have "valuesOf P (nodes (renderStatus h n d)) = valuesOf P (nodes d)"
      using statusDisplayApartD [OF assms(1) Some] assms(2) by (rule valuesOf_renderStatus)
    with Inr Some show ?thesis by (simp add: checkMissing_eq)
  qed
qed


lemma required_values:
  "map (valueOf (nodes d)) (querySelectorAll ''required'' d) = valuesOf isRequired (nodes d)"
  by (simp add: querySelectorAll_def valuesOf_def isRequired_fun)

lemma checkMissing_twice:
  assumes "statusDisplayApart isRequired d"
  shows "checkMissing (snd (checkMissing d)) = checkMissing d"
proof (cases "forEachRequired (nodes d) (querySelectorAll ''required'' d) 0")
  case (Inl e)
  then show ?thesis by (simp add: checkMissing_eq)
next
  case (Inr n)
  show ?thesis
  proof (cases "getElementById ''missing-count'' d")
    case None
    with Inr show ?thesis by (simp add: checkMissing_eq)
  next
    case (Some h)
    let ?d = "renderStatus h n d"
    have 1: "checkMissing d = (Inr n, ?d)"
      using Inr Some by (simp add: checkMissing_eq)
    have "valuesOf isRequired (nodes (snd (checkMissing d))) = valuesOf isRequired (nodes d)"
      using assms by (rule valuesOf_checkMissing) (simp add: isRequired_def)
    then have "map (valueOf (nodes ?d)) (querySelectorAll ''required'' ?d) =
               map (valueOf (nodes d)) (querySelectorAll ''required'' d)"
      by (simp add: required_values 1)
    then have "forEachRequired (nodes ?d) (querySelectorAll ''required'' ?d) 0 =
               forEachRequired (nodes d) (querySelectorAll ''required'' d) 0"
      by (rule forEachRequired_values)
    with Inr have 2: "forEachRequired (nodes ?d) (querySelectorAll ''required'' ?d) 0 = Inr n"
      by simp
    have 3: "getElementById ''missing-count'' ?d = Some h"
      using Some by (rule getElementById_renderStatus)
    have "checkMissing ?d = (Inr n, ?d)"
      by (simp add: checkMissing_eq [of ?d] 2 3 renderStatus_twice)
    with 1 show ?thesis by simp
  qed
qed

lemma callRepeatedly_fixed:
  assumes "snd (f d) = d"
  shows "callRepeatedly f n d = f d"
  by (induction n) (simp_all add: assms)

lemma callRepeatedly_idem:
  assumes "f (snd (f d)) = f d"
  shows "callRepeatedly f n d = f d"
proof (cases n)
  case 0
  then show ?thesis by simp
next
  case (Suc k)
  from assms have "snd (f (snd (f d))) = snd (f d)"
    by simp
  then have "callRepeatedly f k (snd (f d)) = f (snd (f d))"
    by (rule callRepeatedly_fixed)
  with assms Suc show ?thesis by simp
qed

subsection \<open>The email field after checkMissing\<close>

lemma list_all_setTextContent:
  assumes "list_all Q (nodes d)" and "\<And>k s. Q \<lparr>depth = k, item = TextNode s\<rparr>"
  shows "list_all Q (nodes (setTextContent h t d))"
proof (cases "h < length (nodes d)")
  case True
  have "set (take (Suc h) (nodes d)) \<subseteq> set (nodes d)"
    by (rule set_take_subset)
  moreover have "set (dropWhile (deeper (nodes d ! h)) (drop (Suc h) (nodes d))) \<subseteq> set (nodes d)"
    by (meson set_dropWhileD set_drop_subset subset_iff)
  moreover have "list_all Q (textNodes (Suc (depth (nodes d ! h))) t)"
    by (simp add: textNodes_def assms(2))
  ultimately show ?thesis
    using True assms(1) by (auto simp: setTextContent_def list_all_iff)
next
  case False
  with assms(1) show ?thesis by (simp add: setTextContent_def)
qed

lemma list_all_updateElement:
  assumes "list_all Q (nodes d)" and "\<And>n. Q (onElement f n) = Q n"
  shows "list_all Q (nodes (updateElement h f d))"
proof -
  have "map Q (nodes (updateElement h f d)) = map Q (nodes d)"
    by (rule map_updateElement) (rule assms(2))
  then have "list_all (\<lambda>b. b) (map Q (nodes (updateElement h f d))) = list_all (\<lambda>b. b) (map Q (nodes d))"
    by simp
  with assms(1) show ?thesis
    by (simp add: list_all_iff)
qed

lemma everyEmailHasText_checkMissing:
  assumes "everyEmailHasText d"
  shows "everyEmailHasText (snd (checkMissing d))"
proof -
  let ?Q = "\<lambda>n. elementWith (\<lambda>e. ident e = ''email'') n \<longrightarrow> elementWith isField n"
  have "list_all ?Q (nodes (renderStatus h n d))" for h n
    unfolding renderStatus_def setStyleColor_def
  proof (rule list_all_updateElement)
    show "list_all ?Q (nodes (setTextContent h (statusText n) d))"
      using assms by (intro list_all_setTextContent) (simp_all add: everyEmailHasText_def elementWith_def)
  next
    show "?Q (onElement (\<lambda>e. e\<lparr>styleColor := statusColor n\<rparr>) m) = ?Q m" for m
      by (simp add: elementWith_onElement)
  qed
  with assms show ?thesis
    by (simp add: checkMissing_eq everyEmailHasText_def split: sum.splits option.splits)
qed

lemma validateEmail_value:
  assumes "everyEmailHasText d"
  shows "fst (validateEmail d) = Inr (emailValid d)"
proof (cases "getElementById ''email'' d")
  case None
  then show ?thesis by (simp add: validateEmail_eq emailValid_def)
next
  case (Some h)
  then have h: "h < length (nodes d)" and e: "elementWith (\<lambda>e. ident e = ''email'') (nodes d ! h)"
    by (simp_all add: getElementById_Some)
  from h have "nodes d ! h \<in> set (nodes d)" by simp
  with assms e have "elementWith isField (nodes d ! h)"
    by (simp add: everyEmailHasText_def list_all_iff)
  then have "valueOf (nodes d) h \<noteq> None"
    by (simp add: valueOf_None_iff)
  then obtain v where "valueOf (nodes d) h = Some v" by auto
  with Some show ?thesis
    by (simp add: validateEmail_eq emailValid_def)
qed

lemma emailValid_values:
  "emailValid d =
     (case valuesOf isEmail (nodes d) of
        [] \<Rightarrow> True
      | None # vs \<Rightarrow> False
      | Some v # vs \<Rightarrow> 8 \<le> length (trim v))"
proof -
  have "map_option (valueOf (nodes d)) (getElementById ''email'' d) =
          (case valuesOf isEmail (nodes d) of [] \<Rightarrow> None | v # vs \<Rightarrow> Some v)"
    by (simp add: getElementById_def valueOf_first valuesOf_valuesAlong isEmail_fun)
  then show ?thesis
    by (cases "getElementById ''email'' d"; cases "valuesOf isEmail (nodes d)")
       (auto simp: emailValid_def split: option.splits)
qed

lemma emailValid_checkMissing:
  assumes "statusDisplayApart isEmail d"
  shows "emailValid (snd (checkMissing d)) = emailValid d"
proof -
  have "valuesOf isEmail (nodes (snd (checkMissing d))) = valuesOf isEmail (nodes d)"
    using assms by (rule valuesOf_checkMissing) (simp add: isEmail_def)
  then show ?thesis
    by (simp add: emailValid_values)
qed

lemma messages_differ: "warningMessage \<noteq> successMessage"
  by (simp add: warningMessage_def successMessage_def)

lemma validateForm_throws:
  assumes "\<not> requiredHaveText d"
  shows "validateForm d = (Inl TypeError, d)"
  using checkMissing_throws [OF assms] by (simp add: validateForm_def)

text \<open>
  Claim C3. On a page whose required fields and email fields have text values,
  \<open>validateForm\<close> runs \<open>checkMissing\<close>, then \<open>validateEmail\<close> on the document it
  left, and then shows exactly one alert: the warning when the count returned is above 0
  or \<open>validateEmail\<close> found the email invalid, the success message otherwise. The two
  messages differ. When the status display is apart from the email field, the email is
  judged as it stood on the page before the call. On the page with the email input inside
  the status display, rendering the status removes the input, and the alert is the
  success message.
\<close>
theorem validateForm_notifies_once:
  assumes "requiredHaveText d" and "everyEmailHasText d"
  shows "fst (checkMissing d) = Inr (int (length (missingFields d))) \<and>
         fst (validateEmail (snd (checkMissing d))) = Inr (emailValid (snd (checkMissing d))) \<and>
         validateForm d =
           (Inr (), alert (if 0 < length (missingFields d) \<or> \<not> emailValid (snd (checkMissing d))
                           then warningMessage else successMessage)
                      (snd (validateEmail (snd (checkMissing d))))) \<and>
         alerts (snd (validateForm d)) =
           alerts d @ [if 0 < length (missingFields d) \<or> \<not> emailValid (snd (checkMissing d))
                       then warningMessage else successMessage] \<and>
         warningMessage \<noteq> successMessage \<and>
         (statusDisplayApart isEmail d \<longrightarrow> emailValid (snd (checkMissing d)) = emailValid d)"
proof -
  have n: "fst (checkMissing d) = Inr (int (length (missingFields d)))"
    using assms(1) by (rule checkMissing_result)
  have "everyEmailHasText (snd (checkMissing d))"
    using assms(2) by (rule everyEmailHasText_checkMissing)
  then have ok: "fst (validateEmail (snd (checkMissing d))) = Inr (emailValid (snd (checkMissing d)))"
    by (rule validateEmail_value)
  have vf: "validateForm d =
           (Inr (), alert (if 0 < length (missingFields d) \<or> \<not> emailValid (snd (checkMissing d))
                           then warningMessage else successMessage)
                      (snd (validateEmail (snd (checkMissing d)))))"
    using n ok by (cases d rule: validateForm_cases) simp_all
  have a: "alerts (snd (validateForm d)) =
           alerts d @ [if 0 < length (missingFields d) \<or> \<not> emailValid (snd (checkMissing d))
                       then warningMessage else successMessage]"
    by (simp add: vf alert_def alerts_validateEmail alerts_checkMissing)
  have e: "statusDisplayApart isEmail d \<longrightarrow> emailValid (snd (checkMissing d)) = emailValid d"
    by (simp add: emailValid_checkMissing)
  from n ok vf a e messages_differ show ?thesis by blast
qed

theorem validateForm_notifies_once_witness:
  "requiredHaveText (contactForm (lit ''Ann'') (lit ''hello'') (lit ''short'')) \<and>
   everyEmailHasText (contactForm (lit ''Ann'') (lit ''hello'') (lit ''short'')) \<and>
   statusDisplayApart isEmail (contactForm (lit ''Ann'') (lit ''hello'') (lit ''short'')) \<and>
   alerts (snd (validateForm (contactForm (lit ''Ann'') (lit ''hello'') (lit ''short'')))) = [warningMessage] \<and>
   requiredHaveText (formWithoutEmail (lit ''Ann'') (lit ''hello'')) \<and>
   everyEmailHasText (formWithoutEmail (lit ''Ann'') (lit ''hello'')) \<and>
   alerts (snd (validateForm (formWithoutEmail (lit ''Ann'') (lit ''hello'')))) = [successMessage] \<and>
   requiredHaveText (nestedPage (lit ''Ann'') (lit ''short'')) \<and>
   everyEmailHasText (nestedPage (lit ''Ann'') (lit ''short'')) \<and>
   \<not> statusDisplayApart isEmail (nestedPage (lit ''Ann'') (lit ''short'')) \<and>
   alerts (snd (validateForm (nestedPage (lit ''Ann'') (lit ''short'')))) = [successMessage]"
proof -
  let ?c = "contactForm (lit ''Ann'') (lit ''hello'') (lit ''short'')"
  let ?d = "formWithoutEmail (lit ''Ann'') (lit ''hello'')"
  let ?n = "nestedPage (lit ''Ann'') (lit ''short'')"
  have rc: "requiredHaveText ?c" by code_simp
  have ec: "everyEmailHasText ?c" by code_simp
  have sc: "statusDisplayApart isEmail ?c" by code_simp
  have mc: "missingFields ?c = []" by code_simp
  have vc: "\<not> emailValid ?c" by code_simp
  have ac: "alerts ?c = []" by (simp add: contactForm_def)
  have rd: "requiredHaveText ?d" by code_simp
  have ed: "everyEmailHasText ?d" by code_simp
  have md: "missingFields ?d = []" by code_simp
  have vd: "emailValid (snd (checkMissing ?d))" by code_simp
  have ad: "alerts ?d = []" by (simp add: formWithoutEmail_def)
  have rn: "requiredHaveText ?n" by code_simp
  have en: "everyEmailHasText ?n" by code_simp
  have sn: "\<not> statusDisplayApart isEmail ?n" by code_simp
  have mn: "missingFields ?n = []" by code_simp
  have vn: "emailValid (snd (checkMissing ?n))" by code_simp
  have an: "alerts ?n = []" by (simp add: nestedPage_def)
  note c = validateForm_notifies_once [OF rc ec]
  note d = validateForm_notifies_once [OF rd ed]
  note n = validateForm_notifies_once [OF rn en]
  from c sc have vc': "emailValid (snd (checkMissing ?c)) = emailValid ?c" by blast
  have wc: "alerts (snd (validateForm ?c)) =
              alerts ?c @ [if 0 < length (missingFields ?c) \<or> \<not> emailValid (snd (checkMissing ?c))
                           then warningMessage else successMessage]"
    using c by blast
  have wd: "alerts (snd (validateForm ?d)) =
              alerts ?d @ [if 0 < length (missingFields ?d) \<or> \<not> emailValid (snd (checkMissing ?d))
                           then warningMessage else successMessage]"
    using d by blast
  have wn: "alerts (snd (validateForm ?n)) =
              alerts ?n @ [if 0 < length (missingFields ?n) \<or> \<not> emailValid (snd (checkMissing ?n))
                           then warningMessage else successMessage]"
    using n by blast
  show ?thesis
    by (simp add: wc wd wn vc' rc ec sc mc vc ac rd ed md vd ad rn en sn mn vn an)
qed

text \<open>
  Claim C9, amended. When the status display is apart from the required fields, calling
  \<open>checkMissing\<close> again on the document the previous call left gives, at every call,
  the completion and the document of the first call. \<open>validateEmail\<close> does so on every
  page. As stated, for every page, the claim fails for \<open>checkMissing\<close>: with a required
  input inside the status display, or with a \<open>textarea\<close> as status display, the
  first call returns 1 and the second 0, and the text rendered differs.
\<close>
theorem repeated_checks_agree:
  "(statusDisplayApart isRequired d \<longrightarrow>
      checkMissing (snd (checkMissing d)) = checkMissing d \<and>
      callRepeatedly checkMissing n d = checkMissing d) \<and>
   validateEmail (snd (validateEmail d)) = validateEmail d \<and>
   callRepeatedly validateEmail n d = validateEmail d"
  by (simp add: checkMissing_twice validateEmail_twice callRepeatedly_idem)

theorem repeated_checks_agree_witness:
  "statusDisplayApart isRequired (contactForm [] (lit ''x'') (lit ''abc'')) \<and>
   callRepeatedly checkMissing 2 (contactForm [] (lit ''x'') (lit ''abc'')) =
     checkMissing (contactForm [] (lit ''x'') (lit ''abc'')) \<and>
   fst (checkMissing (contactForm [] (lit ''x'') (lit ''abc''))) = Inr 1 \<and>
   callRepeatedly validateEmail 2 (contactForm [] (lit ''x'') (lit ''abc'')) =
     validateEmail (contactForm [] (lit ''x'') (lit ''abc'')) \<and>
   fst (validateEmail (contactForm [] (lit ''x'') (lit ''abc''))) = Inr False"
proof -
  let ?d = "contactForm [] (lit ''x'') (lit ''abc'')"
  have s: "statusDisplayApart isRequired ?d" by code_simp
  have c: "fst (checkMissing ?d) = Inr 1" by code_simp
  have e: "fst (validateEmail ?d) = Inr False" by code_simp
  from repeated_checks_agree [of ?d 2] s c e show ?thesis by simp
qed

theorem repeated_checkMissing_counterexample:
  "fst (checkMissing (nestedPage [] (lit ''a@b.example''))) = Inr 1 \<and>
   fst (checkMissing (snd (checkMissing (nestedPage [] (lit ''a@b.example''))))) = Inr 0 \<and>
   fst (checkMissing textareaPage) = Inr 1 \<and>
   fst (checkMissing (snd (checkMissing textareaPage))) = Inr 0 \<and>
   textContent (nodes (snd (checkMissing textareaPage))) 0 = lit ''1 required field(s) still incomplete.'' \<and>
   textContent (nodes (snd (checkMissing (snd (checkMissing textareaPage))))) 0 =
     lit ''All required fields completed.''"
proof -
  have 1: "fst (checkMissing (nestedPage [] (lit ''a@b.example''))) = Inr 1" by code_simp
  have 2: "fst (checkMissing (snd (checkMissing (nestedPage [] (lit ''a@b.example''))))) = Inr 0"
    by code_simp
  have 3: "fst (checkMissing textareaPage) = Inr 1" by code_simp
  have 4: "fst (checkMissing (snd (checkMissing textareaPage))) = Inr 0" by code_simp
  have 5: "textContent (nodes (snd (checkMissing textareaPage))) 0 =
             lit ''1 required field(s) still incomplete.''" by code_simp
  have 6: "textContent (nodes (snd (checkMissing (snd (checkMissing textareaPage))))) 0 =
             lit ''All required fields completed.''" by code_simp
  from 1 2 3 4 5 6 show ?thesis by simp
qed

subsection \<open>The frame of the script\<close>





lemma nodes_alert [simp]: "nodes (alert m d) = nodes d"
  by (simp add: alert_def)













end
